theory Spec2Isabelle
  imports Complex_Main "HOL-Library.Sublist"
begin

section \<open>JavaScript strings and numbers\<close>

text \<open>
  Strings are lists of code units; the model covers the Latin-1 range, where one
  \<^typ>\<open>char\<close> is one code unit and \<open>toLowerCase\<close> keeps the length.
\<close>

definition toLowerCaseChar :: "char \<Rightarrow> char" where
  "toLowerCaseChar c =
     (let n = (of_char c :: nat)
      in if (65 \<le> n \<and> n \<le> 90) \<or> (192 \<le> n \<and> n \<le> 222 \<and> n \<noteq> 215)
         then char_of (n + 32) else c)"

definition toLowerCase :: "string \<Rightarrow> string" where
  "toLowerCase s = map toLowerCaseChar s"

definition isWhiteSpace :: "char \<Rightarrow> bool" where
  "isWhiteSpace c = ((of_char c :: nat) \<in> {9, 10, 11, 12, 13, 32, 160})"

definition trim :: "string \<Rightarrow> string" where
  "trim s = rev (dropWhile isWhiteSpace (rev (dropWhile isWhiteSpace s)))"

text \<open>\<open>haystack.includes(needle)\<close>: the needle occurs at some position of the haystack.\<close>

fun includes_str :: "string \<Rightarrow> string \<Rightarrow> bool" where
  "includes_str [] needle = (needle = [])"
| "includes_str (c # cs) needle = (prefix needle (c # cs) \<or> includes_str cs needle)"

section \<open>Numbers\<close>

text \<open>
  A JavaScript number is an IEEE double, and every operation on numbers rounds. The
  arithmetic of a run is a parameter of the scoring functions: \<open>num_lit\<close> gives the number
  that a numeric literal or an integer value (a string length, a counter) denotes, and the
  four operations are those of the run. The numbers are linearly ordered: the scorer divides
  by the length of a non-empty string only, so neither NaN nor an infinity arises.
\<close>

record 'n arith =
  num_lit :: "rat \<Rightarrow> 'n"
  num_add :: "'n \<Rightarrow> 'n \<Rightarrow> 'n"
  num_sub :: "'n \<Rightarrow> 'n \<Rightarrow> 'n"
  num_mul :: "'n \<Rightarrow> 'n \<Rightarrow> 'n"
  num_div :: "'n \<Rightarrow> 'n \<Rightarrow> 'n"

text \<open>The arithmetic without rounding, on the rationals.\<close>

definition exact :: "rat arith" where
  "exact = \<lparr>num_lit = (\<lambda>r. r), num_add = (+), num_sub = (-), num_mul = (*), num_div = (/)\<rparr>"

text \<open>
  The sign of a difference of two numbers is exact: \<open>b - a \<le> 0\<close> holds exactly when
  \<open>b \<le> a\<close>. Doubles have this property (a difference of two distinct finite doubles does
  not round to zero), and so has the arithmetic without rounding.
\<close>

definition sign_exact :: "('n::linorder) arith \<Rightarrow> bool" where
  "sign_exact ops = (\<forall>a b. (num_sub ops b a \<le> num_lit ops 0) = (b \<le> a))"

section \<open>Utils.fuzzySearch\<close>

text \<open>
  The matching loop of \<open>fuzzySearch\<close>: it walks the haystack while
  \<open>needleIndex < needle.length\<close> and returns the final \<open>(score, needleIndex)\<close>.
\<close>

fun fuzzyLoop :: "string \<Rightarrow> string \<Rightarrow> nat \<Rightarrow> nat \<Rightarrow> nat \<times> nat" where
  "fuzzyLoop [] needle score needleIndex = (score, needleIndex)"
| "fuzzyLoop (c # cs) needle score needleIndex =
     (if needleIndex < length needle
      then (if c = needle ! needleIndex
            then fuzzyLoop cs needle (score + 1) (needleIndex + 1)
            else fuzzyLoop cs needle score needleIndex)
      else (score, needleIndex))"

definition fuzzySearch_in :: "'n arith \<Rightarrow> string \<Rightarrow> string \<Rightarrow> 'n" where
  "fuzzySearch_in ops needle0 haystack0 =
     (if needle0 = [] \<or> haystack0 = [] then num_lit ops 0
      else
        let needle = toLowerCase needle0;
            haystack = toLowerCase haystack0
        in if haystack = needle then num_lit ops 1
           else if includes_str haystack needle
           then num_sub ops (num_lit ops (8 / 10))
                  (num_mul ops
                     (num_div ops
                        (num_sub ops (num_lit ops (of_nat (length haystack)))
                                     (num_lit ops (of_nat (length needle))))
                        (num_lit ops (of_nat (length haystack))))
                     (num_lit ops (3 / 10)))
           else
             (case fuzzyLoop haystack needle 0 0 of
                (score, needleIndex) \<Rightarrow>
                  if needleIndex = length needle
                  then num_mul ops
                         (num_div ops (num_lit ops (of_nat score))
                                      (num_lit ops (of_nat (length needle))))
                         (num_lit ops (6 / 10))
                  else num_lit ops 0))"

text \<open>The score in the arithmetic without rounding.\<close>

definition fuzzySearch :: "string \<Rightarrow> string \<Rightarrow> rat" where
  "fuzzySearch needle0 haystack0 = fuzzySearch_in exact needle0 haystack0"

section \<open>DocumentSearch: the search history\<close>

record DocumentSearch =
  searchHistory :: "string list"
  maxHistorySize :: nat

text \<open>
  \<open>localStorage\<close> maps a key to the array whose JSON text is stored under it;
  \<open>setItem\<close> may throw (quota, disabled storage), which \<open>saveSearchHistory\<close> catches.
\<close>

type_synonym localStorage = "string \<rightharpoonup> string list"

definition saveSearchHistory :: "bool \<Rightarrow> DocumentSearch \<Rightarrow> localStorage \<Rightarrow> localStorage" where
  "saveSearchHistory setItemOk this storage =
     (if setItemOk then storage(''docs-search-history'' \<mapsto> searchHistory this) else storage)"

definition addToSearchHistory ::
  "bool \<Rightarrow> string \<Rightarrow> DocumentSearch \<times> localStorage \<Rightarrow> DocumentSearch \<times> localStorage" where
  "addToSearchHistory setItemOk query st =
     (case st of (this, storage) \<Rightarrow>
        let this1 = this\<lparr>searchHistory := filter (\<lambda>term. term \<noteq> query) (searchHistory this)\<rparr>;
            this2 = this1\<lparr>searchHistory := query # searchHistory this1\<rparr>;
            this3 = (if length (searchHistory this2) > maxHistorySize this2
                     then this2\<lparr>searchHistory := take (maxHistorySize this2) (searchHistory this2)\<rparr>
                     else this2)
        in (this3, saveSearchHistory setItemOk this3 storage))"

text \<open>The constructor: an empty history with capacity 10.\<close>

definition DocumentSearch_new :: DocumentSearch where
  "DocumentSearch_new = \<lparr>searchHistory = [], maxHistorySize = 10\<rparr>"

section \<open>DataService\<close>

text \<open>
  A feature record of \<open>features.json\<close>. The localized fields map a language code to
  a text; \<open>tags\<close>, \<open>examples\<close> and \<open>version\<close> may be absent.
\<close>

record feature =
  feature_id :: string
  category :: string
  status :: string
  title :: "string \<rightharpoonup> string"
  description :: "string \<rightharpoonup> string"
  details :: "string \<rightharpoonup> string"
  tags :: "string list option"
  examples :: "string list option"
  version :: "string option"

text \<open>The object \<open>{...feature, searchScore: score}\<close> pushed onto \<open>searchResults\<close>.\<close>

record 'n scored_feature = feature +
  searchScore :: 'n

text \<open>A category of \<open>categories.json\<close>; the search reads its \<open>id\<close> only.\<close>

record category_rec =
  category_id :: string

datatype cached = CachedFeatures "feature list" | CachedCategories "category_rec list"

record DataService =
  features :: "feature list"
  categories :: "category_rec list"
  cache :: "string \<rightharpoonup> cached"
  initialized :: bool

definition DataService_new :: DataService where
  "DataService_new = \<lparr>features = [], categories = [], cache = Map.empty, initialized = False\<rparr>"

definition getAllFeatures :: "DataService \<Rightarrow> feature list" where
  "getAllFeatures this = features this"

definition getCategoryById :: "DataService \<Rightarrow> string \<Rightarrow> category_rec option" where
  "getCategoryById this ident = find (\<lambda>c. category_id c = ident) (categories this)"

text \<open>\<open>field[language] || field.en || ''\<close>: an absent or empty text falls through.\<close>

definition localized :: "(string \<rightharpoonup> string) \<Rightarrow> string \<Rightarrow> string" where
  "localized field language =
     (case field language of
        Some s \<Rightarrow> if s \<noteq> [] then s
                  else (case field ''en'' of Some e \<Rightarrow> e | None \<Rightarrow> [])
      | None \<Rightarrow> (case field ''en'' of Some e \<Rightarrow> e | None \<Rightarrow> []))"

text \<open>\<open>x || []\<close> for an optional array.\<close>

definition orEmpty :: "'a list option \<Rightarrow> 'a list" where
  "orEmpty v = (case v of Some xs \<Rightarrow> xs | None \<Rightarrow> [])"

definition calculateFuzzyScore_in ::
  "('n::linorder) arith \<Rightarrow> string \<Rightarrow> string \<Rightarrow> string \<Rightarrow> string list \<Rightarrow> 'n" where
  "calculateFuzzyScore_in ops searchTerm titleText descriptionText tagList =
     (let titleScore = num_mul ops (fuzzySearch_in ops searchTerm titleText) (num_lit ops 30);
          descScore = num_mul ops (fuzzySearch_in ops searchTerm descriptionText) (num_lit ops 20);
          tagScore = foldl (\<lambda>tagScore tag.
                       max tagScore (num_mul ops (fuzzySearch_in ops searchTerm tag) (num_lit ops 25)))
                     (num_lit ops 0) tagList;
          fuzzyScore = num_add ops (num_add ops titleScore descScore) tagScore
      in if fuzzyScore > num_lit ops 10 then fuzzyScore else num_lit ops 0)"

definition calculateFuzzyScore :: "string \<Rightarrow> string \<Rightarrow> string \<Rightarrow> string list \<Rightarrow> rat" where
  "calculateFuzzyScore searchTerm titleText descriptionText tagList =
     calculateFuzzyScore_in exact searchTerm titleText descriptionText tagList"

text \<open>
  The body of the \<open>forEach\<close> in \<open>searchFeatures\<close> that computes \<open>score\<close>, the fuzzy
  contribution included: the score of one feature for the normalised search term.
  \<open>scoreFeature\<close> and \<open>calculateFuzzyScore\<close> are the scores in the arithmetic without
  rounding.
\<close>

definition scoreFeature_in ::
  "('n::linorder) arith \<Rightarrow> DataService \<Rightarrow> string \<Rightarrow> string \<Rightarrow> feature \<Rightarrow> 'n" where
  "scoreFeature_in ops this searchTerm language feature =
     (let titleText = localized (title feature) language;
          descriptionText = localized (description feature) language;
          detailsText = localized (details feature) language;
          tagList = orEmpty (tags feature);
          exampleList = orEmpty (examples feature);
          score = num_lit ops 0;
          score = (if includes_str (toLowerCase titleText) searchTerm
                   then (if toLowerCase titleText = searchTerm
                         then num_add ops (num_add ops score (num_lit ops 100)) (num_lit ops 50)
                         else num_add ops score (num_lit ops 100))
                   else score);
          score = (if includes_str (toLowerCase descriptionText) searchTerm
                   then num_add ops score (num_lit ops 80) else score);
          score = foldl (\<lambda>score tag.
                     if includes_str (toLowerCase tag) searchTerm
                     then (if toLowerCase tag = searchTerm
                           then num_add ops (num_add ops score (num_lit ops 60)) (num_lit ops 20)
                           else num_add ops score (num_lit ops 60))
                     else score) score tagList;
          score = foldl (\<lambda>score example.
                     if includes_str (toLowerCase example) searchTerm
                     then num_add ops score (num_lit ops 40) else score) score exampleList;
          score = (if includes_str (toLowerCase detailsText) searchTerm
                   then num_add ops score (num_lit ops 20) else score);
          score = (case getCategoryById this (category feature) of
                     Some cat \<Rightarrow>
                       if includes_str (toLowerCase (category_id cat)) searchTerm
                       then num_add ops score (num_lit ops 30) else score
                   | None \<Rightarrow> score);
          fuzzyScore = calculateFuzzyScore_in ops searchTerm titleText descriptionText tagList
      in num_add ops score fuzzyScore)"

definition scoreFeature :: "DataService \<Rightarrow> string \<Rightarrow> string \<Rightarrow> feature \<Rightarrow> rat" where
  "scoreFeature this searchTerm language feature =
     scoreFeature_in exact this searchTerm language feature"

text \<open>
  \<open>Array.prototype.sort\<close> with a comparator. ECMAScript specifies the sort as stable; it is
  modelled as the stable insertion sort that puts \<open>x\<close> before the first \<open>y\<close> with
  \<open>cmp x y \<le> 0\<close>.
\<close>

fun insert_sorted ::
  "('n::linorder) arith \<Rightarrow> ('a \<Rightarrow> 'a \<Rightarrow> 'n) \<Rightarrow> 'a \<Rightarrow> 'a list \<Rightarrow> 'a list" where
  "insert_sorted ops cmp x [] = [x]"
| "insert_sorted ops cmp x (y # ys) =
     (if cmp x y \<le> num_lit ops 0 then x # y # ys else y # insert_sorted ops cmp x ys)"

definition array_sort ::
  "('n::linorder) arith \<Rightarrow> ('a \<Rightarrow> 'a \<Rightarrow> 'n) \<Rightarrow> 'a list \<Rightarrow> 'a list" where
  "array_sort ops cmp xs = foldr (insert_sorted ops cmp) xs []"

text \<open>
  \<open>searchFeatures\<close> returns the result together with the service, which it reads
  (\<open>getCategoryById\<close>) and never assigns to. The language is passed explicitly; the
  default \<open>en\<close> of the source stands for an omitted argument.
\<close>

definition searchFeatures_in ::
  "('n::linorder) arith \<Rightarrow> DataService \<Rightarrow> feature list \<Rightarrow> string \<Rightarrow> string
     \<Rightarrow> feature list \<times> DataService" where
  "searchFeatures_in ops this featureList query language =
     (if query = [] \<or> trim query = [] then (featureList, this)
      else
        let searchTerm = trim (toLowerCase query);
            searchResults =
              foldl (\<lambda>searchResults feature.
                       let score = scoreFeature_in ops this searchTerm language feature
                       in if score > num_lit ops 0
                          then searchResults @ [feature.extend feature \<lparr>searchScore = score\<rparr>]
                          else searchResults) [] featureList
        in (map feature.truncate
              (array_sort ops (\<lambda>a b. num_sub ops (searchScore b) (searchScore a))
                 searchResults), this))"

text \<open>The search in the arithmetic without rounding.\<close>

definition searchFeatures ::
  "DataService \<Rightarrow> feature list \<Rightarrow> string \<Rightarrow> string \<Rightarrow> feature list \<times> DataService" where
  "searchFeatures this featureList query language =
     searchFeatures_in exact this featureList query language"

text \<open>The \<open>filters\<close> object; every facet may be absent.\<close>

record filters =
  filter_category :: "string option"
  filter_status :: "string option"
  filter_tags :: "string list option"
  filter_version :: "string option"

text \<open>\<open>v && v !== 'all'\<close> for an optional string facet.\<close>

definition facetActive :: "string option \<Rightarrow> bool" where
  "facetActive v = (case v of Some s \<Rightarrow> s \<noteq> [] \<and> s \<noteq> ''all'' | None \<Rightarrow> False)"

text \<open>\<open>filters.tags && filters.tags.length > 0\<close>.\<close>

definition tagsActive :: "string list option \<Rightarrow> bool" where
  "tagsActive v = (case v of Some ts \<Rightarrow> length ts > 0 | None \<Rightarrow> False)"

text \<open>\<open>filters.tags.some(tag => feature.tags && feature.tags.includes(tag))\<close>.\<close>

definition hasSomeTag :: "string list \<Rightarrow> feature \<Rightarrow> bool" where
  "hasSomeTag wanted feature =
     list_ex (\<lambda>tag. case tags feature of Some ts \<Rightarrow> tag \<in> set ts | None \<Rightarrow> False) wanted"

definition filterFeatures :: "feature list \<Rightarrow> filters \<Rightarrow> feature list" where
  "filterFeatures featureList fs =
     (let filtered = featureList;
          filtered = (if facetActive (filter_category fs)
                      then filter (\<lambda>feature. Some (category feature) = filter_category fs) filtered
                      else filtered);
          filtered = (if facetActive (filter_status fs)
                      then filter (\<lambda>feature. Some (status feature) = filter_status fs) filtered
                      else filtered);
          filtered = (if tagsActive (filter_tags fs)
                      then filter (hasSomeTag (orEmpty (filter_tags fs))) filtered
                      else filtered);
          filtered = (if facetActive (filter_version fs)
                      then filter (\<lambda>feature. version feature = filter_version fs) filtered
                      else filtered)
      in filtered)"

section \<open>Example data\<close>

text \<open>Two catalog entries and two filter states used to run the functions.\<close>

definition feature_slash :: feature where
  "feature_slash = \<lparr>feature_id = ''1'', category = ''commands'', status = ''stable'',
     title = [''en'' \<mapsto> ''Slash Commands''], description = Map.empty, details = Map.empty,
     tags = None, examples = None, version = Some ''1.0''\<rparr>"

definition feature_background :: feature where
  "feature_background = \<lparr>feature_id = ''2'', category = ''commands'', status = ''beta'',
     title = [''en'' \<mapsto> ''Background Commands''], description = Map.empty,
     details = Map.empty, tags = Some [''shell''], examples = None, version = Some ''2.0''\<rparr>"

text \<open>The service after a successful \<open>init\<close> over these entries and one category.\<close>

definition service_loaded :: DataService where
  "service_loaded = \<lparr>features = [feature_slash, feature_background],
     categories = [\<lparr>category_id = ''commands''\<rparr>],
     cache = [''features-data'' \<mapsto> CachedFeatures [feature_slash, feature_background],
              ''categories-data'' \<mapsto> CachedCategories [\<lparr>category_id = ''commands''\<rparr>]],
     initialized = True\<rparr>"

definition filters_beta :: filters where
  "filters_beta = \<lparr>filter_category = None, filter_status = Some ''beta'',
     filter_tags = None, filter_version = None\<rparr>"

definition filters_version :: filters where
  "filters_version = \<lparr>filter_category = Some ''all'', filter_status = Some ''all'',
     filter_tags = None, filter_version = Some ''2.0''\<rparr>"

section \<open>Strings: basic facts\<close>

lemmas string_eval =
  toLowerCase_def toLowerCaseChar_def char_of_def bit_iff_odd trim_def isWhiteSpace_def

lemma length_toLowerCase: "length (toLowerCase s) = length s"
  by (simp add: toLowerCase_def)

lemma includes_str_sublist: "includes_str h n \<longleftrightarrow> sublist n h"
  by (induction h) (simp_all add: sublist_Cons_right)

section \<open>The arithmetic without rounding\<close>

lemma exact_simps:
  "num_lit exact r = r" "num_add exact a b = a + b" "num_sub exact a b = a - b"
  "num_mul exact a b = a * b" "num_div exact a b = a / b"
  by (simp_all add: exact_def)

lemma sign_exact_exact: "sign_exact exact"
  by (simp add: sign_exact_def exact_simps)

lemma fuzzySearch_eq:
  "fuzzySearch needle0 haystack0 =
     (if needle0 = [] \<or> haystack0 = [] then 0
      else
        let needle = toLowerCase needle0;
            haystack = toLowerCase haystack0
        in if haystack = needle then 1
           else if includes_str haystack needle
           then 8 / 10 - (of_nat (length haystack) - of_nat (length needle))
                           / of_nat (length haystack) * (3 / 10)
           else
             (case fuzzyLoop haystack needle 0 0 of
                (score, needleIndex) \<Rightarrow>
                  if needleIndex = length needle
                  then of_nat score / of_nat (length needle) * (6 / 10)
                  else 0))"
  unfolding fuzzySearch_def fuzzySearch_in_def exact_simps by (rule refl)

lemma calculateFuzzyScore_eq:
  "calculateFuzzyScore searchTerm titleText descriptionText tagList =
     (let titleScore = fuzzySearch searchTerm titleText * 30;
          descScore = fuzzySearch searchTerm descriptionText * 20;
          tagScore = foldl (\<lambda>tagScore tag. max tagScore (fuzzySearch searchTerm tag * 25)) 0 tagList;
          fuzzyScore = titleScore + descScore + tagScore
      in if fuzzyScore > 10 then fuzzyScore else 0)"
  unfolding calculateFuzzyScore_def fuzzySearch_def calculateFuzzyScore_in_def exact_simps
  by (rule refl)

lemma scoreFeature_eq:
  "scoreFeature this searchTerm language feature =
     (let titleText = localized (title feature) language;
          descriptionText = localized (description feature) language;
          detailsText = localized (details feature) language;
          tagList = orEmpty (tags feature);
          exampleList = orEmpty (examples feature);
          score = 0;
          score = (if includes_str (toLowerCase titleText) searchTerm
                   then (if toLowerCase titleText = searchTerm then score + 100 + 50
                         else score + 100)
                   else score);
          score = (if includes_str (toLowerCase descriptionText) searchTerm
                   then score + 80 else score);
          score = foldl (\<lambda>score tag.
                     if includes_str (toLowerCase tag) searchTerm
                     then (if toLowerCase tag = searchTerm then score + 60 + 20
                           else score + 60)
                     else score) score tagList;
          score = foldl (\<lambda>score example.
                     if includes_str (toLowerCase example) searchTerm
                     then score + 40 else score) score exampleList;
          score = (if includes_str (toLowerCase detailsText) searchTerm
                   then score + 20 else score);
          score = (case getCategoryById this (category feature) of
                     Some cat \<Rightarrow>
                       if includes_str (toLowerCase (category_id cat)) searchTerm
                       then score + 30 else score
                   | None \<Rightarrow> score);
          fuzzyScore = calculateFuzzyScore searchTerm titleText descriptionText tagList
      in score + fuzzyScore)"
  unfolding scoreFeature_def calculateFuzzyScore_def scoreFeature_in_def exact_simps
  by (rule refl)

lemma searchFeatures_eq:
  "searchFeatures this featureList query language =
     (if query = [] \<or> trim query = [] then (featureList, this)
      else
        let searchTerm = trim (toLowerCase query);
            searchResults =
              foldl (\<lambda>searchResults feature.
                       let score = scoreFeature this searchTerm language feature
                       in if score > 0
                          then searchResults @ [feature.extend feature \<lparr>searchScore = score\<rparr>]
                          else searchResults) [] featureList
        in (map feature.truncate
              (array_sort exact (\<lambda>a b. searchScore b - searchScore a) searchResults), this))"
  unfolding searchFeatures_def scoreFeature_def searchFeatures_in_def exact_simps
  by (rule refl)

section \<open>The fuzzy score\<close>

text \<open>The greedy loop consumes the whole needle exactly when the needle is a subsequence.\<close>

lemma fuzzyLoop_subseq:
  "ni \<le> length n \<Longrightarrow> (snd (fuzzyLoop h n s ni) = length n) = subseq (drop ni n) h"
proof (induction h arbitrary: s ni)
  case Nil
  then show ?case by (auto dest: list_emb_Nil2)
next
  case (Cons c cs)
  show ?case
  proof (cases "ni < length n")
    case True
    then have d: "drop ni n = n ! ni # drop (Suc ni) n"
      by (simp add: Cons_nth_drop_Suc)
    from True have le: "Suc ni \<le> length n" by simp
    show ?thesis
      using True Cons.IH[OF le] Cons.IH[OF Cons.prems] d
      by auto
  next
    case False
    with Cons.prems show ?thesis by simp
  qed
qed

text \<open>\<open>score\<close> and \<open>needleIndex\<close> advance together.\<close>

lemma fuzzyLoop_score:
  "fst (fuzzyLoop h n s ni) + ni = s + snd (fuzzyLoop h n s ni)"
  by (induction h n s ni rule: fuzzyLoop.induct) auto

lemma fuzzySearch_value:
  "fuzzySearch n h =
    (if n = [] \<or> h = [] then 0
     else if toLowerCase h = toLowerCase n then 1
     else if sublist (toLowerCase n) (toLowerCase h)
          then 1 / 2 + 3 / 10 * (of_nat (length n) / of_nat (length h))
     else if subseq (toLowerCase n) (toLowerCase h) then 6 / 10 else 0)"
proof -
  have sub: "(snd (fuzzyLoop (toLowerCase h) (toLowerCase n) 0 0) = length n)
      = subseq (toLowerCase n) (toLowerCase h)"
    using fuzzyLoop_subseq[of 0 "toLowerCase n" "toLowerCase h" 0]
    by (simp add: length_toLowerCase)
  have sc: "fst (fuzzyLoop (toLowerCase h) (toLowerCase n) 0 0)
      = snd (fuzzyLoop (toLowerCase h) (toLowerCase n) 0 0)"
    using fuzzyLoop_score[of "toLowerCase h" "toLowerCase n" 0 0] by simp
  have alg: "h \<noteq> [] \<Longrightarrow>
      (8::rat) / 10 - (of_nat (length h) - of_nat (length n)) / of_nat (length h) * (3 / 10)
      = 1 / 2 + 3 / 10 * (of_nat (length n) / of_nat (length h))"
    by (simp add: field_simps)
  show ?thesis
    using sub sc alg
    by (auto simp: fuzzySearch_eq Let_def includes_str_sublist length_toLowerCase
        split: prod.splits)
qed

lemma fuzzySearch_empty: "n = [] \<or> h = [] \<Longrightarrow> fuzzySearch n h = 0"
  by (simp add: fuzzySearch_eq)

lemma fuzzySearch_exact:
  "n \<noteq> [] \<Longrightarrow> h \<noteq> [] \<Longrightarrow> toLowerCase h = toLowerCase n \<Longrightarrow> fuzzySearch n h = 1"
  by (simp add: fuzzySearch_value)

lemma fuzzySearch_substring:
  "n \<noteq> [] \<Longrightarrow> h \<noteq> [] \<Longrightarrow> toLowerCase h \<noteq> toLowerCase n \<Longrightarrow>
   sublist (toLowerCase n) (toLowerCase h) \<Longrightarrow>
   fuzzySearch n h = 1 / 2 + 3 / 10 * (of_nat (length n) / of_nat (length h))"
  by (simp add: fuzzySearch_value)

lemma fuzzySearch_subsequence:
  "n \<noteq> [] \<Longrightarrow> h \<noteq> [] \<Longrightarrow> \<not> sublist (toLowerCase n) (toLowerCase h) \<Longrightarrow>
   subseq (toLowerCase n) (toLowerCase h) \<Longrightarrow> fuzzySearch n h = 6 / 10"
  by (auto simp: fuzzySearch_value)

lemma fuzzySearch_nomatch:
  "\<not> subseq (toLowerCase n) (toLowerCase h) \<Longrightarrow> fuzzySearch n h = 0"
  by (auto simp: fuzzySearch_value)

lemma substring_ratio:
  assumes "n \<noteq> []" and "sublist (toLowerCase n) (toLowerCase h)"
  shows "0 < (of_nat (length n) / of_nat (length h) :: rat)"
    and "(of_nat (length n) / of_nat (length h) :: rat) \<le> 1"
proof -
  have le: "length n \<le> length h"
    using sublist_length_le[OF assms(2)] by (simp add: length_toLowerCase)
  have pos: "0 < length n" using assms(1) by simp
  then have posh: "0 < length h" using le by linarith
  show "0 < (of_nat (length n) / of_nat (length h) :: rat)"
    using pos posh by simp
  show "(of_nat (length n) / of_nat (length h) :: rat) \<le> 1"
    using le posh by simp
qed

lemma fuzzySearch_substring_bounds:
  assumes "n \<noteq> []" "h \<noteq> []" "toLowerCase h \<noteq> toLowerCase n"
    and "sublist (toLowerCase n) (toLowerCase h)"
  shows "1 / 2 < fuzzySearch n h" and "fuzzySearch n h \<le> 8 / 10"
proof -
  define r :: rat where "r = of_nat (length n) / of_nat (length h)"
  have v: "fuzzySearch n h = 1 / 2 + 3 / 10 * r"
    unfolding r_def using assms by (rule fuzzySearch_substring)
  have "0 < r" "r \<le> 1"
    unfolding r_def using substring_ratio[OF assms(1) assms(4)] by blast+
  then show "1 / 2 < fuzzySearch n h" and "fuzzySearch n h \<le> 8 / 10"
    unfolding v by linarith+
qed

lemma fuzzySearch_bounds: "0 \<le> fuzzySearch n h \<and> fuzzySearch n h \<le> 1"
proof -
  consider "n = [] \<or> h = []"
    | "n \<noteq> []" "h \<noteq> []" "toLowerCase h = toLowerCase n"
    | "n \<noteq> []" "h \<noteq> []" "toLowerCase h \<noteq> toLowerCase n"
      "sublist (toLowerCase n) (toLowerCase h)"
    | "n \<noteq> []" "h \<noteq> []" "\<not> sublist (toLowerCase n) (toLowerCase h)"
      "subseq (toLowerCase n) (toLowerCase h)"
    | "\<not> subseq (toLowerCase n) (toLowerCase h)"
    by blast
  then show ?thesis
  proof cases
    case 1 then show ?thesis by (simp add: fuzzySearch_empty)
  next
    case 2 then show ?thesis by (simp add: fuzzySearch_exact)
  next
    case 3
    from fuzzySearch_substring_bounds[OF 3] show ?thesis by linarith
  next
    case 4 then show ?thesis by (simp add: fuzzySearch_subsequence)
  next
    case 5 then show ?thesis by (simp add: fuzzySearch_nomatch)
  qed
qed

text \<open>
  C10: \<open>Utils.fuzzySearch(needle, haystack)\<close> lies in the closed interval from 0 to 1. It is
  1 on a case-insensitive exact match, lies above 0.5 and at most at 0.8 on a substring
  match, is at most 0.6 when the needle occurs only as a subsequence, and is 0 when an
  argument is empty or the needle is not a subsequence of the haystack.
\<close>

theorem fuzzySearch_range:
  "0 \<le> fuzzySearch n h \<and> fuzzySearch n h \<le> 1
   \<and> (n \<noteq> [] \<and> h \<noteq> [] \<and> toLowerCase h = toLowerCase n \<longrightarrow> fuzzySearch n h = 1)
   \<and> (n \<noteq> [] \<and> h \<noteq> [] \<and> toLowerCase h \<noteq> toLowerCase n
        \<and> sublist (toLowerCase n) (toLowerCase h)
      \<longrightarrow> 1 / 2 < fuzzySearch n h \<and> fuzzySearch n h \<le> 8 / 10)
   \<and> (n \<noteq> [] \<and> h \<noteq> [] \<and> \<not> sublist (toLowerCase n) (toLowerCase h)
        \<and> subseq (toLowerCase n) (toLowerCase h)
      \<longrightarrow> fuzzySearch n h \<le> 6 / 10)
   \<and> (n = [] \<or> h = [] \<or> \<not> subseq (toLowerCase n) (toLowerCase h) \<longrightarrow> fuzzySearch n h = 0)"
proof -
  have sub_le: "n \<noteq> [] \<Longrightarrow> h \<noteq> [] \<Longrightarrow> \<not> sublist (toLowerCase n) (toLowerCase h) \<Longrightarrow>
      subseq (toLowerCase n) (toLowerCase h) \<Longrightarrow> fuzzySearch n h \<le> 6 / 10"
    by (simp add: fuzzySearch_subsequence)
  show ?thesis
    using fuzzySearch_bounds[of n h] fuzzySearch_exact[of n h]
      fuzzySearch_substring_bounds[of n h] sub_le
      fuzzySearch_empty[of n h] fuzzySearch_nomatch[of n h]
    by blast
qed

text \<open>One input for each case of C10: exact, substring, subsequence only, no match, empty.\<close>

theorem fuzzySearch_range_witness:
  "(toLowerCase ''aB'' = toLowerCase ''Ab'' \<and> fuzzySearch ''Ab'' ''aB'' = 1)
   \<and> (toLowerCase ''xab'' \<noteq> toLowerCase ''ab'' \<and> sublist (toLowerCase ''ab'') (toLowerCase ''xab'')
      \<and> 1 / 2 < fuzzySearch ''ab'' ''xab'' \<and> fuzzySearch ''ab'' ''xab'' \<le> 8 / 10)
   \<and> (\<not> sublist (toLowerCase ''ab'') (toLowerCase ''axb'')
      \<and> subseq (toLowerCase ''ab'') (toLowerCase ''axb'') \<and> fuzzySearch ''ab'' ''axb'' \<le> 6 / 10)
   \<and> (\<not> subseq (toLowerCase ''ab'') (toLowerCase ''ba'') \<and> fuzzySearch ''ab'' ''ba'' = 0)
   \<and> fuzzySearch [] ''ba'' = 0"
proof -
  have h1: "''Ab'' \<noteq> [] \<and> ''aB'' \<noteq> [] \<and> toLowerCase ''aB'' = toLowerCase ''Ab''"
    by (simp add: string_eval)
  have h2: "''ab'' \<noteq> [] \<and> ''xab'' \<noteq> [] \<and> toLowerCase ''xab'' \<noteq> toLowerCase ''ab''
      \<and> sublist (toLowerCase ''ab'') (toLowerCase ''xab'')"
    by (simp add: string_eval includes_str_sublist[symmetric])
  have h3: "''ab'' \<noteq> [] \<and> ''axb'' \<noteq> [] \<and> \<not> sublist (toLowerCase ''ab'') (toLowerCase ''axb'')
      \<and> subseq (toLowerCase ''ab'') (toLowerCase ''axb'')"
    by (simp add: string_eval includes_str_sublist[symmetric])
  have h4: "\<not> subseq (toLowerCase ''ab'') (toLowerCase ''ba'')"
    by (simp add: string_eval)
  have c1: "fuzzySearch ''Ab'' ''aB'' = 1"
    using fuzzySearch_range[of "''Ab''" "''aB''"] h1 by simp
  have c2: "1 / 2 < fuzzySearch ''ab'' ''xab'' \<and> fuzzySearch ''ab'' ''xab'' \<le> 8 / 10"
    using fuzzySearch_range[of "''ab''" "''xab''"] h2 by simp
  have c3: "fuzzySearch ''ab'' ''axb'' \<le> 6 / 10"
    using fuzzySearch_range[of "''ab''" "''axb''"] h3 by simp
  have c4: "fuzzySearch ''ab'' ''ba'' = 0"
    using fuzzySearch_range[of "''ab''" "''ba''"] h4 by simp
  have c5: "fuzzySearch [] ''ba'' = 0"
    using fuzzySearch_range[of "[]" "''ba''"] by simp
  show ?thesis
    using h1 h2 h3 h4 c1 c2 c3 c4 c5 by simp
qed




section \<open>Ranking\<close>

lemma insert_sorted_insort_key:
  "insert_sorted exact (\<lambda>a b. k b - k a) x ys = insort_key (\<lambda>a. - k a) x ys"
  by (induction ys) (auto simp: exact_simps)

lemma array_sort_sort_key:
  "array_sort exact (\<lambda>a b. k b - k a) xs = sort_key (\<lambda>a. - k a) xs"
  by (induction xs) (simp_all add: array_sort_def sort_key_def insert_sorted_insort_key)

lemma insort_key_map:
  "insort_key k (g x) (map g xs) = map g (insort_key (\<lambda>a. k (g a)) x xs)"
  by (induction xs) auto

lemma sort_key_map:
  "sort_key k (map g xs) = map g (sort_key (\<lambda>a. k (g a)) xs)"
  by (induction xs) (simp_all add: insort_key_map)

lemma truncate_extend: "feature.truncate (feature.extend f \<lparr>searchScore = s\<rparr>) = f"
  by (simp add: feature.truncate_def feature.extend_def)

lemma searchScore_extend: "searchScore (feature.extend f \<lparr>searchScore = s\<rparr>) = s"
  by (simp add: feature.extend_def)

lemma push_loop:
  "foldl (\<lambda>searchResults feature.
            if z < sc feature
            then searchResults @ [feature.extend feature \<lparr>searchScore = sc feature\<rparr>]
            else searchResults) acc fs
   = acc @ map (\<lambda>f. feature.extend f \<lparr>searchScore = sc f\<rparr>) (filter (\<lambda>f. z < sc f) fs)"
  by (induction fs arbitrary: acc) (simp_all add: Let_def)

lemma searchFeatures_ranked:
  assumes "trim query \<noteq> []"
  shows "searchFeatures this fs query language =
    (sort_key (\<lambda>f. - scoreFeature this (trim (toLowerCase query)) language f)
       (filter (\<lambda>f. 0 < scoreFeature this (trim (toLowerCase query)) language f) fs), this)"
proof -
  have q: "query \<noteq> []" using assms by (auto simp: trim_def)
  show ?thesis
    using assms q
    by (simp add: searchFeatures_eq Let_def push_loop array_sort_sort_key sort_key_map
        searchScore_extend truncate_extend o_def)
qed

lemma searchFeatures_blank:
  "query = [] \<or> trim query = [] \<Longrightarrow> searchFeatures this fs query language = (fs, this)"
  by (auto simp: searchFeatures_eq)

text \<open>
  The stable sort of an increasing list of positions orders it by key, and by position
  among equal keys.
\<close>

lemma insort_key_ranked:
  assumes "sorted_wrt (\<lambda>i j. k i < k j \<or> (k i = k j \<and> i < j)) ys"
    and "\<forall>y\<in>set ys. x < y"
  shows "sorted_wrt (\<lambda>i j. k i < k j \<or> (k i = k j \<and> i < j)) (insort_key k x ys)"
  using assms
proof (induction ys)
  case Nil
  then show ?case by simp
next
  case (Cons y ys)
  show ?case
  proof (cases "k x \<le> k y")
    case True
    with Cons.prems show ?thesis by (fastforce)
  next
    case False
    with Cons show ?thesis by (auto simp: set_insort_key)
  qed
qed

lemma sort_key_ranked:
  fixes k :: "nat \<Rightarrow> rat"
  assumes "sorted_wrt (<) xs"
  shows "sorted_wrt (\<lambda>i j. k i < k j \<or> (k i = k j \<and> i < j)) (sort_key k xs)"
  using assms
proof (induction xs)
  case Nil
  then show ?case by simp
next
  case (Cons x xs)
  then show ?case
    by (simp add: insort_key_ranked)
qed

lemma filter_nth_indices:
  "filter P xs = map (nth xs) (filter (\<lambda>i. P (xs ! i)) [0..<length xs])"
proof -
  have "filter P (map (nth xs) [0..<length xs]) = map (nth xs) (filter (\<lambda>i. P (xs ! i)) [0..<length xs])"
    by (simp add: filter_map o_def)
  then show ?thesis by (simp add: map_nth)
qed


lemma foldl_weight2:
  fixes a b :: rat
  shows "foldl (\<lambda>s x. if c x then (if e x then s + a + b else s + a) else s) s0 xs
    = s0 + sum_list (map (\<lambda>x. if c x then (if e x then a + b else a) else 0) xs)"
  by (induction xs arbitrary: s0) (simp_all add: algebra_simps)

lemma foldl_weight1:
  fixes a :: rat
  shows "foldl (\<lambda>s x. if c x then s + a else s) s0 xs
    = s0 + sum_list (map (\<lambda>x. if c x then a else 0) xs)"
  by (induction xs arbitrary: s0) (simp_all add: algebra_simps)

lemma calculateFuzzyScore_nonneg: "0 \<le> calculateFuzzyScore t a b c"
  by (simp add: calculateFuzzyScore_eq Let_def)

lemma scoreFeature_sum:
  "scoreFeature this t l f =
     (if includes_str (toLowerCase (localized (title f) l)) t
      then (if toLowerCase (localized (title f) l) = t then 150 else 100) else 0)
   + (if includes_str (toLowerCase (localized (description f) l)) t then 80 else 0)
   + sum_list (map (\<lambda>tag. if includes_str (toLowerCase tag) t
                            then (if toLowerCase tag = t then 60 + 20 else 60) else 0)
                (orEmpty (tags f)))
   + sum_list (map (\<lambda>ex. if includes_str (toLowerCase ex) t then 40 else 0)
                (orEmpty (examples f)))
   + (if includes_str (toLowerCase (localized (details f) l)) t then 20 else 0)
   + (case getCategoryById this (category f) of
        Some cat \<Rightarrow> if includes_str (toLowerCase (category_id cat)) t then 30 else 0
      | None \<Rightarrow> 0)
   + calculateFuzzyScore t (localized (title f) l) (localized (description f) l)
       (orEmpty (tags f))"
  by (simp add: scoreFeature_eq Let_def foldl_weight1 foldl_weight2 split: option.splits)

lemma scoreFeature_nonneg: "0 \<le> scoreFeature this t l f"
proof -
  have a: "0 \<le> sum_list (map (\<lambda>tag. if includes_str (toLowerCase tag) t
                            then (if toLowerCase tag = t then 60 + 20 else 60) else (0::rat))
                (orEmpty (tags f)))"
    by (rule sum_list_nonneg) auto
  have b: "0 \<le> sum_list (map (\<lambda>ex. if includes_str (toLowerCase ex) t then 40 else (0::rat))
                (orEmpty (examples f)))"
    by (rule sum_list_nonneg) auto
  have c: "0 \<le> (case getCategoryById this (category f) of
        Some cat \<Rightarrow> if includes_str (toLowerCase (category_id cat)) t then 30 else (0::rat)
      | None \<Rightarrow> 0)"
    by (simp split: option.splits)
  show ?thesis
    unfolding scoreFeature_sum
    using a b c calculateFuzzyScore_nonneg[of t "localized (title f) l" "localized (description f) l" "orEmpty (tags f)"]
    by (intro add_nonneg_nonneg) simp_all
qed

lemma scoreFeature_empty_term: "0 < scoreFeature this [] l f"
proof -
  have a: "0 \<le> sum_list (map (\<lambda>tag. if includes_str (toLowerCase tag) []
                            then (if toLowerCase tag = [] then 60 + 20 else 60) else (0::rat))
                (orEmpty (tags f)))"
    by (rule sum_list_nonneg) auto
  have b: "0 \<le> sum_list (map (\<lambda>ex. if includes_str (toLowerCase ex) [] then 40 else (0::rat))
                (orEmpty (examples f)))"
    by (rule sum_list_nonneg) auto
  have c: "0 \<le> (case getCategoryById this (category f) of
        Some cat \<Rightarrow> if includes_str (toLowerCase (category_id cat)) [] then 30 else (0::rat)
      | None \<Rightarrow> 0)"
    by (simp split: option.splits)
  have d: "0 < (if includes_str (toLowerCase (localized (title f) l)) []
      then (if toLowerCase (localized (title f) l) = [] then 150 else 100) else (0::rat))"
    by (simp add: includes_str_sublist)
  have e: "0 \<le> (if includes_str (toLowerCase (localized (description f) l)) [] then 80 else (0::rat))"
    "0 \<le> (if includes_str (toLowerCase (localized (details f) l)) [] then 20 else (0::rat))"
    by simp_all
  show ?thesis
    unfolding scoreFeature_sum
    using a b c d e calculateFuzzyScore_nonneg[of "[]" "localized (title f) l" "localized (description f) l" "orEmpty (tags f)"]
    by linarith
qed

lemma trim_Nil_iff: "trim s = [] \<longleftrightarrow> (\<forall>c\<in>set s. isWhiteSpace c)"
proof
  assume "trim s = []"
  then have all: "\<forall>x\<in>set (dropWhile isWhiteSpace s). isWhiteSpace x"
    by (simp add: trim_def)
  have "dropWhile isWhiteSpace s = []"
  proof (rule ccontr)
    assume ne: "dropWhile isWhiteSpace s \<noteq> []"
    then have "\<not> isWhiteSpace (hd (dropWhile isWhiteSpace s))"
      by (rule hd_dropWhile)
    moreover have "hd (dropWhile isWhiteSpace s) \<in> set (dropWhile isWhiteSpace s)"
      using ne by simp
    ultimately show False using all by blast
  qed
  then show "\<forall>c\<in>set s. isWhiteSpace c" by simp
next
  assume "\<forall>c\<in>set s. isWhiteSpace c"
  then have d: "dropWhile isWhiteSpace s = []" by simp
  show "trim s = []" unfolding trim_def d by simp
qed

lemma isWhiteSpace_toLowerCaseChar: "isWhiteSpace c \<Longrightarrow> toLowerCaseChar c = c"
  by (auto simp: isWhiteSpace_def toLowerCaseChar_def Let_def)

lemma trim_toLowerCase_blank: "trim s = [] \<Longrightarrow> trim (toLowerCase s) = []"
  by (auto simp: trim_Nil_iff toLowerCase_def isWhiteSpace_toLowerCaseChar)

lemma searchFeatures_indices:
  assumes "trim query \<noteq> []"
  shows "\<exists>is. fst (searchFeatures this fs query l) = map (nth fs) is
      \<and> (\<forall>i\<in>set is. i < length fs) \<and> distinct is
      \<and> sorted_wrt (\<lambda>i j.
            scoreFeature this (trim (toLowerCase query)) l (fs ! j)
              < scoreFeature this (trim (toLowerCase query)) l (fs ! i)
          \<or> (scoreFeature this (trim (toLowerCase query)) l (fs ! i)
              = scoreFeature this (trim (toLowerCase query)) l (fs ! j) \<and> i < j)) is"
proof -
  define sc where "sc = scoreFeature this (trim (toLowerCase query)) l"
  define idx where "idx = filter (\<lambda>i. 0 < sc (fs ! i)) [0..<length fs]"
  define js where "js = sort_key (\<lambda>i. - sc (fs ! i)) idx"
  have inc: "sorted_wrt (<) idx"
    unfolding idx_def by (rule sorted_wrt_filter) simp
  have res: "fst (searchFeatures this fs query l) = map (nth fs) js"
    unfolding js_def idx_def sc_def
    by (simp add: searchFeatures_ranked[OF assms] filter_nth_indices[of _ fs] sort_key_map)
  have bound: "\<forall>i\<in>set js. i < length fs"
    unfolding js_def idx_def by simp
  have dist: "distinct js"
    unfolding js_def idx_def by simp
  have "sorted_wrt (\<lambda>i j. - sc (fs ! i) < - sc (fs ! j)
      \<or> (- sc (fs ! i) = - sc (fs ! j) \<and> i < j)) js"
    unfolding js_def by (rule sort_key_ranked[OF inc])
  then have ord: "sorted_wrt (\<lambda>i j. sc (fs ! j) < sc (fs ! i)
      \<or> (sc (fs ! i) = sc (fs ! j) \<and> i < j)) js"
    by simp
  show ?thesis
    using res bound dist ord unfolding sc_def by blast
qed

text \<open>
  The same for the sort of \<open>searchFeatures\<close> in any arithmetic in which a difference has
  the exact sign.
\<close>

lemma set_insert_sorted: "set (insert_sorted ops cmp x ys) = insert x (set ys)"
  by (induction ys) auto

lemma set_array_sort: "set (array_sort ops cmp xs) = set xs"
  by (induction xs) (simp_all add: array_sort_def set_insert_sorted)

lemma insert_sorted_map:
  "insert_sorted ops cmp (g x) (map g xs)
     = map g (insert_sorted ops (\<lambda>a b. cmp (g a) (g b)) x xs)"
  by (induction xs) auto

lemma array_sort_map:
  "array_sort ops cmp (map g xs) = map g (array_sort ops (\<lambda>a b. cmp (g a) (g b)) xs)"
  by (induction xs) (simp_all add: array_sort_def insert_sorted_map)

lemma insert_sorted_ranked:
  assumes "sign_exact ops"
    and "sorted_wrt (\<lambda>i j. k j < k i \<or> (k i = k j \<and> i < j)) ys"
    and "\<forall>y\<in>set ys. x < y"
  shows "sorted_wrt (\<lambda>i j. k j < k i \<or> (k i = k j \<and> i < j))
           (insert_sorted ops (\<lambda>i j. num_sub ops (k j) (k i)) x ys)"
  using assms(2,3)
proof (induction ys)
  case Nil
  then show ?case by simp
next
  case (Cons y ys)
  have test: "(num_sub ops (k y) (k x) \<le> num_lit ops 0) = (k y \<le> k x)"
    using assms(1) by (simp add: sign_exact_def)
  show ?case
  proof (cases "k y \<le> k x")
    case True
    with Cons.prems test show ?thesis by fastforce
  next
    case False
    with Cons test show ?thesis by (auto simp: set_insert_sorted)
  qed
qed

lemma array_sort_ranked:
  assumes "sign_exact ops" and "sorted_wrt (<) xs"
  shows "sorted_wrt (\<lambda>i j. k j < k i \<or> (k i = k j \<and> i < j))
           (array_sort ops (\<lambda>i j. num_sub ops (k j) (k i)) xs)"
  using assms(2)
proof (induction xs)
  case Nil
  then show ?case by (simp add: array_sort_def)
next
  case (Cons x xs)
  have tl: "sorted_wrt (\<lambda>i j. k j < k i \<or> (k i = k j \<and> i < j))
           (array_sort ops (\<lambda>i j. num_sub ops (k j) (k i)) xs)"
    using Cons by simp
  have lt: "\<forall>y\<in>set (array_sort ops (\<lambda>i j. num_sub ops (k j) (k i)) xs). x < y"
    using Cons.prems by (simp add: set_array_sort)
  have "array_sort ops (\<lambda>i j. num_sub ops (k j) (k i)) (x # xs)
      = insert_sorted ops (\<lambda>i j. num_sub ops (k j) (k i)) x
          (array_sort ops (\<lambda>i j. num_sub ops (k j) (k i)) xs)"
    by (simp add: array_sort_def)
  then show ?case
    using insert_sorted_ranked[OF assms(1) tl lt] by simp
qed

lemma searchFeatures_in_indices:
  fixes ops :: "('n::linorder) arith"
  assumes "trim query \<noteq> []"
  shows "fst (searchFeatures_in ops this fs query l) =
    map (nth fs)
      (array_sort ops
         (\<lambda>i j. num_sub ops (scoreFeature_in ops this (trim (toLowerCase query)) l (fs ! j))
                            (scoreFeature_in ops this (trim (toLowerCase query)) l (fs ! i)))
         (filter (\<lambda>i. num_lit ops 0 < scoreFeature_in ops this (trim (toLowerCase query)) l (fs ! i))
            [0..<length fs]))"
proof -
  have q: "query \<noteq> []" using assms by (auto simp: trim_def)
  define sc where "sc = scoreFeature_in ops this (trim (toLowerCase query)) l"
  have "fst (searchFeatures_in ops this fs query l) =
      map feature.truncate
        (array_sort ops (\<lambda>a b. num_sub ops (searchScore b) (searchScore a))
          (map (\<lambda>f. feature.extend f \<lparr>searchScore = sc f\<rparr>)
             (filter (\<lambda>f. num_lit ops 0 < sc f) fs)))"
    using assms q unfolding sc_def
    by (simp add: searchFeatures_in_def Let_def push_loop)
  also have "filter (\<lambda>f. num_lit ops 0 < sc f) fs
      = map (nth fs) (filter (\<lambda>i. num_lit ops 0 < sc (fs ! i)) [0..<length fs])"
    by (rule filter_nth_indices)
  finally show ?thesis
    unfolding sc_def
    by (simp add: array_sort_map searchScore_extend truncate_extend o_def)
qed

section \<open>Running the search on the example data\<close>

lemmas score_eval =
  scoreFeature_sum localized_def orEmpty_def calculateFuzzyScore_eq
  fuzzySearch_eq getCategoryById_def service_loaded_def feature_slash_def
  feature_background_def Let_def

lemma trim_command: "trim ''command'' = ''command'' \<and> trim (toLowerCase ''command'') = ''command''"
  by (simp add: string_eval)

lemma score_command_slash:
  "scoreFeature service_loaded ''command'' ''en'' feature_slash = 299 / 2"
  by (simp add: score_eval string_eval)

lemma score_command_background:
  "scoreFeature service_loaded ''command'' ''en'' feature_background = 2818 / 19"
  by (simp add: score_eval string_eval)

lemma search_command:
  "fst (searchFeatures service_loaded [feature_background, feature_slash] ''command'' ''en'')
     = [feature_slash, feature_background]"
proof -
  have h: "trim ''command'' \<noteq> []" by (simp add: trim_command)
  show ?thesis
    by (simp add: searchFeatures_ranked[OF h] trim_command score_command_slash
        score_command_background)
qed

lemma trim_space: "trim '' '' = [] \<and> trim (toLowerCase '' '') = []"
  by (simp add: string_eval)

section \<open>Properties of searchFeatures\<close>

text \<open>
  C1 as stated fails for a query that is not empty but consists of whitespace: the one-space
  query returns the records in store order, although the second record scores higher
  against the normalised query than the first (290 against 230).
\<close>

theorem searchFeatures_blank_unranked:
  "'' '' \<noteq> []
   \<and> fst (searchFeatures service_loaded [feature_slash, feature_background] '' '' ''en'')
       = [feature_slash, feature_background]
   \<and> scoreFeature service_loaded (trim (toLowerCase '' '')) ''en'' feature_slash = 230
   \<and> scoreFeature service_loaded (trim (toLowerCase '' '')) ''en'' feature_background = 290"
proof -
  have a: "fst (searchFeatures service_loaded [feature_slash, feature_background] '' '' ''en'')
       = [feature_slash, feature_background]"
    by (simp add: searchFeatures_blank trim_space)
  have b: "scoreFeature service_loaded [] ''en'' feature_slash = 230"
    by (simp add: score_eval string_eval)
  have c: "scoreFeature service_loaded [] ''en'' feature_background = 290"
    by (simp add: score_eval string_eval)
  show ?thesis using a b c by (simp add: trim_space)
qed

text \<open>
  C1, amended: for a query that is neither empty nor whitespace-only, in every arithmetic
  in which a difference has the exact sign (the doubles of a run, and the arithmetic without
  rounding), every returned record sits at a position \<open>pos ! n\<close> of the input, and of two
  returned records the earlier one has the strictly greater score, or the same score and
  the earlier input position. The scores are the ones the run computes in its arithmetic.
\<close>

theorem searchFeatures_ordering:
  fixes ops :: "('n::linorder) arith"
  assumes "trim query \<noteq> []" and "sign_exact ops"
  shows "\<exists>pos. length pos = length (fst (searchFeatures_in ops this fs query l))
    \<and> (\<forall>n<length pos. pos ! n < length fs
          \<and> fst (searchFeatures_in ops this fs query l) ! n = fs ! (pos ! n))
    \<and> (\<forall>m n. m < n \<and> n < length pos \<longrightarrow>
          scoreFeature_in ops this (trim (toLowerCase query)) l (fs ! (pos ! n))
            < scoreFeature_in ops this (trim (toLowerCase query)) l (fs ! (pos ! m))
        \<or> (scoreFeature_in ops this (trim (toLowerCase query)) l (fs ! (pos ! m))
            = scoreFeature_in ops this (trim (toLowerCase query)) l (fs ! (pos ! n))
           \<and> pos ! m < pos ! n))"
proof -
  define sc where "sc = scoreFeature_in ops this (trim (toLowerCase query)) l"
  define idx where "idx = filter (\<lambda>i. num_lit ops 0 < sc (fs ! i)) [0..<length fs]"
  define js where "js = array_sort ops (\<lambda>i j. num_sub ops (sc (fs ! j)) (sc (fs ! i))) idx"
  have inc: "sorted_wrt (<) idx"
    unfolding idx_def by (rule sorted_wrt_filter) simp
  have res: "fst (searchFeatures_in ops this fs query l) = map (nth fs) js"
    unfolding js_def idx_def sc_def by (rule searchFeatures_in_indices[OF assms(1)])
  have bound: "\<forall>i\<in>set js. i < length fs"
    unfolding js_def idx_def by (simp add: set_array_sort)
  have ord: "sorted_wrt (\<lambda>i j. sc (fs ! j) < sc (fs ! i)
      \<or> (sc (fs ! i) = sc (fs ! j) \<and> i < j)) js"
    unfolding js_def by (rule array_sort_ranked[OF assms(2) inc])
  have a: "length js = length (fst (searchFeatures_in ops this fs query l))"
    by (simp add: res)
  have b: "\<forall>n<length js. js ! n < length fs
          \<and> fst (searchFeatures_in ops this fs query l) ! n = fs ! (js ! n)"
    using bound by (simp add: res)
  have c: "\<forall>m n. m < n \<and> n < length js \<longrightarrow>
          sc (fs ! (js ! n)) < sc (fs ! (js ! m))
        \<or> (sc (fs ! (js ! m)) = sc (fs ! (js ! n)) \<and> js ! m < js ! n)"
    using ord by (simp add: sorted_wrt_iff_nth_less)
  from a b c show ?thesis unfolding sc_def by blast
qed

theorem searchFeatures_ordering_witness:
  "trim ''command'' \<noteq> [] \<and> sign_exact exact
   \<and> (\<exists>pos. length pos = length (fst (searchFeatures_in exact service_loaded
            [feature_background, feature_slash] ''command'' ''en''))
    \<and> (\<forall>n<length pos. pos ! n < length [feature_background, feature_slash]
          \<and> fst (searchFeatures_in exact service_loaded [feature_background, feature_slash]
                ''command'' ''en'') ! n = [feature_background, feature_slash] ! (pos ! n))
    \<and> (\<forall>m n. m < n \<and> n < length pos \<longrightarrow>
          scoreFeature_in exact service_loaded (trim (toLowerCase ''command'')) ''en''
              ([feature_background, feature_slash] ! (pos ! n))
            < scoreFeature_in exact service_loaded (trim (toLowerCase ''command'')) ''en''
              ([feature_background, feature_slash] ! (pos ! m))
        \<or> (scoreFeature_in exact service_loaded (trim (toLowerCase ''command'')) ''en''
              ([feature_background, feature_slash] ! (pos ! m))
            = scoreFeature_in exact service_loaded (trim (toLowerCase ''command'')) ''en''
              ([feature_background, feature_slash] ! (pos ! n))
           \<and> pos ! m < pos ! n)))
   \<and> fst (searchFeatures_in exact service_loaded [feature_background, feature_slash]
        ''command'' ''en'') = [feature_slash, feature_background]"
proof -
  have h: "trim ''command'' \<noteq> []"
    by (simp add: trim_command)
  note t = searchFeatures_ordering[OF h sign_exact_exact, of service_loaded
      "[feature_background, feature_slash]" "''en''"]
  have r: "fst (searchFeatures_in exact service_loaded [feature_background, feature_slash]
        ''command'' ''en'') = [feature_slash, feature_background]"
    using search_command by (simp add: searchFeatures_def)
  show ?thesis
    by (rule conjI[OF h conjI[OF sign_exact_exact conjI[OF t r]]])
qed

text \<open>
  C2: every record returned by \<open>searchFeatures\<close> has a score strictly above 0 against the
  normalised query, so no record of score 0 is returned. This holds for every query: a blank
  query normalises to the empty term, which every title contains.
\<close>

theorem searchFeatures_positive_scores:
  "\<forall>f\<in>set (fst (searchFeatures this fs query l)).
     0 < scoreFeature this (trim (toLowerCase query)) l f"
proof (cases "trim query = []")
  case True
  then have "trim (toLowerCase query) = []" by (rule trim_toLowerCase_blank)
  then show ?thesis by (simp add: scoreFeature_empty_term)
next
  case False
  then show ?thesis by (simp add: searchFeatures_ranked)
qed

lemma trim_slash: "trim ''slash'' = ''slash'' \<and> trim (toLowerCase ''slash'') = ''slash''"
  by (simp add: string_eval)

lemma score_slash_slash:
  "scoreFeature service_loaded ''slash'' ''en'' feature_slash = 1655 / 14"
  by (simp add: score_eval string_eval)

lemma score_slash_background:
  "scoreFeature service_loaded ''slash'' ''en'' feature_background = 0"
  by (simp add: score_eval string_eval)

lemma search_slash:
  "fst (searchFeatures service_loaded [feature_slash, feature_background] ''slash'' ''en'')
     = [feature_slash]"
proof -
  have h: "trim ''slash'' \<noteq> []" by (simp add: trim_slash)
  show ?thesis
    by (simp add: searchFeatures_ranked[OF h] trim_slash score_slash_slash
        score_slash_background)
qed

theorem searchFeatures_positive_scores_witness:
  "fst (searchFeatures service_loaded [feature_slash, feature_background] ''slash'' ''en'')
     = [feature_slash]
   \<and> 0 < scoreFeature service_loaded (trim (toLowerCase ''slash'')) ''en'' feature_slash
   \<and> scoreFeature service_loaded (trim (toLowerCase ''slash'')) ''en'' feature_background = 0"
proof -
  have "0 < scoreFeature service_loaded (trim (toLowerCase ''slash'')) ''en'' feature_slash"
    using searchFeatures_positive_scores[of service_loaded
        "[feature_slash, feature_background]" "''slash''" "''en''"]
    unfolding search_slash by simp
  then show ?thesis
    using search_slash score_slash_background by (simp add: trim_slash)
qed

text \<open>
  C3: for a query that is empty or consists of whitespace only, \<open>searchFeatures\<close> returns
  the input records unchanged and in order. The result does not depend on the categories or
  the language, which only the scoring reads, and the service (with its cache) is returned
  as it was.
\<close>

theorem searchFeatures_blank_query:
  assumes "\<forall>c\<in>set query. isWhiteSpace c"
  shows "searchFeatures this fs query l = (fs, this)"
proof -
  have "trim query = []" using assms by (simp add: trim_Nil_iff)
  then show ?thesis by (simp add: searchFeatures_blank)
qed

theorem searchFeatures_blank_query_witness:
  "list_all isWhiteSpace ''  ''
   \<and> searchFeatures service_loaded [feature_slash, feature_background] ''  '' ''en''
       = ([feature_slash, feature_background], service_loaded)
   \<and> searchFeatures service_loaded [feature_slash, feature_background] [] ''en''
       = ([feature_slash, feature_background], service_loaded)"
proof -
  have h: "\<forall>c\<in>set ''  ''. isWhiteSpace c" by (simp add: isWhiteSpace_def)
  have e: "\<forall>c\<in>set ([] :: string). isWhiteSpace c" by simp
  have a: "list_all isWhiteSpace ''  ''" using h by (simp add: list_all_iff)
  show ?thesis
    by (rule conjI[OF a conjI[OF searchFeatures_blank_query[OF h] searchFeatures_blank_query[OF e]]])
qed

lemma trim_claude: "trim ''claude'' = ''claude''"
  by (simp add: string_eval)

text \<open>
  C4 as stated fails: on the service as the constructor leaves it (nothing loaded,
  \<open>initialized\<close> false) a search returns an ordinary result, the empty list computed
  over the empty store, and signals no error.
\<close>

theorem searchFeatures_before_load:
  "\<not> initialized DataService_new
   \<and> getAllFeatures DataService_new = []
   \<and> searchFeatures DataService_new (getAllFeatures DataService_new) ''claude'' ''en''
       = ([], DataService_new)"
proof -
  have h: "trim ''claude'' \<noteq> []" by (simp add: trim_claude)
  have g: "getAllFeatures DataService_new = []"
    by (simp add: getAllFeatures_def DataService_new_def)
  have i: "\<not> initialized DataService_new" by (simp add: DataService_new_def)
  show ?thesis
    using i by (simp add: g searchFeatures_ranked[OF h])
qed

lemma scoreFeature_initialized:
  "scoreFeature (this\<lparr>initialized := b\<rparr>) t l f = scoreFeature this t l f"
  by (simp add: scoreFeature_sum getCategoryById_def)

text \<open>
  C4, amended: \<open>searchFeatures\<close> never consults the \<open>initialized\<close> flag. Whatever the
  flag, it returns the result computed from the records it is given and leaves the service
  as it was; no readiness error is signalled.
\<close>

theorem searchFeatures_ignores_initialized:
  "searchFeatures (this\<lparr>initialized := b\<rparr>) fs query l
     = (fst (searchFeatures this fs query l), this\<lparr>initialized := b\<rparr>)"
proof (cases "trim query = []")
  case True
  then show ?thesis by (simp add: searchFeatures_blank)
next
  case False
  then show ?thesis by (simp add: searchFeatures_ranked scoreFeature_initialized)
qed

theorem searchFeatures_ignores_initialized_witness:
  "searchFeatures (service_loaded\<lparr>initialized := False\<rparr>) [feature_slash, feature_background]
      ''slash'' ''en''
     = ([feature_slash], service_loaded\<lparr>initialized := False\<rparr>)
   \<and> fst (searchFeatures service_loaded [feature_slash, feature_background] ''slash'' ''en'')
     = [feature_slash]"
  using searchFeatures_ignores_initialized[where this = service_loaded and b = False
      and fs = "[feature_slash, feature_background]" and query = "''slash''" and l = "''en''"]
  by (simp add: search_slash)

text \<open>
  C9: the records returned by \<open>searchFeatures\<close> are plain feature records, without the
  \<open>searchScore\<close> field of the internal entries, and each of them is equal, field by field,
  to the store record at its own position \<open>pos ! n\<close> of the input.
\<close>

theorem searchFeatures_returns_store_records:
  "\<exists>pos. length pos = length (fst (searchFeatures this fs query l)) \<and> distinct pos
    \<and> (\<forall>n<length pos. pos ! n < length fs
          \<and> fst (searchFeatures this fs query l) ! n = fs ! (pos ! n))"
proof (cases "trim query = []")
  case True
  then have "fst (searchFeatures this fs query l) = fs" by (simp add: searchFeatures_blank)
  then have "length [0..<length fs] = length (fst (searchFeatures this fs query l))
      \<and> distinct [0..<length fs]
      \<and> (\<forall>n<length [0..<length fs]. [0..<length fs] ! n < length fs
          \<and> fst (searchFeatures this fs query l) ! n = fs ! ([0..<length fs] ! n))"
    by simp
  then show ?thesis by blast
next
  case False
  from searchFeatures_indices[OF False, of this fs l]
  obtain js where res: "fst (searchFeatures this fs query l) = map (nth fs) js"
    and bound: "\<forall>i\<in>set js. i < length fs" and dist: "distinct js"
    by blast
  have "length js = length (fst (searchFeatures this fs query l)) \<and> distinct js
    \<and> (\<forall>n<length js. js ! n < length fs
          \<and> fst (searchFeatures this fs query l) ! n = fs ! (js ! n))"
    using bound dist by (simp add: res)
  then show ?thesis by blast
qed

theorem searchFeatures_returns_store_records_witness:
  "(\<exists>pos. length pos = length (fst (searchFeatures service_loaded
        [feature_background, feature_slash] ''command'' ''en'')) \<and> distinct pos
    \<and> (\<forall>n<length pos. pos ! n < length [feature_background, feature_slash]
          \<and> fst (searchFeatures service_loaded [feature_background, feature_slash]
                ''command'' ''en'') ! n = [feature_background, feature_slash] ! (pos ! n)))
   \<and> fst (searchFeatures service_loaded [feature_background, feature_slash] ''command'' ''en'')
       = [feature_slash, feature_background]"
  by (rule conjI[OF searchFeatures_returns_store_records[of service_loaded
        "[feature_background, feature_slash]" "''command''" "''en''"] search_command])

section \<open>Properties of filterFeatures\<close>

lemma filterFeatures_filter:
  "filterFeatures fs F =
     filter (\<lambda>f. (facetActive (filter_category F) \<longrightarrow> Some (category f) = filter_category F)
              \<and> (facetActive (filter_status F) \<longrightarrow> Some (status f) = filter_status F)
              \<and> (tagsActive (filter_tags F) \<longrightarrow> hasSomeTag (orEmpty (filter_tags F)) f)
              \<and> (facetActive (filter_version F) \<longrightarrow> version f = filter_version F)) fs"
  by (auto simp: filterFeatures_def Let_def intro!: filter_cong)

lemma hasSomeTag_iff:
  "hasSomeTag wanted f \<longleftrightarrow> (\<exists>tag\<in>set wanted. \<exists>own. tags f = Some own \<and> tag \<in> set own)"
  by (auto simp: hasSomeTag_def list_ex_iff split: option.splits)

lemma facet_category:
  "(facetActive (filter_category F) \<longrightarrow> Some (category f) = filter_category F)
      = (\<forall>c. filter_category F = Some c \<and> c \<noteq> [] \<and> c \<noteq> ''all'' \<longrightarrow> category f = c)"
  by (cases "filter_category F") (auto simp: facetActive_def)

lemma facet_status:
  "(facetActive (filter_status F) \<longrightarrow> Some (status f) = filter_status F)
      = (\<forall>s. filter_status F = Some s \<and> s \<noteq> [] \<and> s \<noteq> ''all'' \<longrightarrow> status f = s)"
  by (cases "filter_status F") (auto simp: facetActive_def)

lemma facet_tags:
  "(tagsActive (filter_tags F) \<longrightarrow> hasSomeTag (orEmpty (filter_tags F)) f)
      = (\<forall>ts. filter_tags F = Some ts \<and> ts \<noteq> [] \<longrightarrow>
            (\<exists>tag\<in>set ts. \<exists>own. tags f = Some own \<and> tag \<in> set own))"
  by (cases "filter_tags F") (simp_all add: tagsActive_def orEmpty_def hasSomeTag_iff)

lemma facet_version:
  "(facetActive (filter_version F) \<longrightarrow> version f = filter_version F)
      = (\<forall>v. filter_version F = Some v \<and> v \<noteq> [] \<and> v \<noteq> ''all'' \<longrightarrow> version f = Some v)"
  by (cases "filter_version F") (auto simp: facetActive_def)


lemma filter_beta_example:
  "filterFeatures [feature_slash, feature_background] filters_beta = [feature_background]"
  by (simp add: filterFeatures_filter filters_beta_def facetActive_def tagsActive_def
      feature_slash_def feature_background_def)

text \<open>
  C6 as stated fails: with category and status both at the wildcard, a version facet still
  narrows the result, so a record that satisfies every category and status facet is dropped.
\<close>

theorem filterFeatures_version_facet:
  "filter_category filters_version = Some ''all''
   \<and> filter_status filters_version = Some ''all''
   \<and> filterFeatures [feature_slash, feature_background] filters_version = [feature_background]"
  by (simp add: filterFeatures_filter filters_version_def facetActive_def tagsActive_def
      feature_slash_def feature_background_def)

text \<open>
  C6, amended: \<open>filterFeatures\<close> keeps exactly the records that satisfy every active
  facet. Category, status and version are active when present, non-empty and different from
  \<open>all\<close>, and then the record's field must equal the facet value; tags is active when it
  is a non-empty list, and then the record must carry one of the listed tags. The facets
  compose with logical AND.
\<close>

theorem filterFeatures_facets:
  "filterFeatures fs F =
     filter (\<lambda>f. (\<forall>c. filter_category F = Some c \<and> c \<noteq> [] \<and> c \<noteq> ''all'' \<longrightarrow> category f = c)
              \<and> (\<forall>s. filter_status F = Some s \<and> s \<noteq> [] \<and> s \<noteq> ''all'' \<longrightarrow> status f = s)
              \<and> (\<forall>ts. filter_tags F = Some ts \<and> ts \<noteq> [] \<longrightarrow>
                    (\<exists>tag\<in>set ts. \<exists>own. tags f = Some own \<and> tag \<in> set own))
              \<and> (\<forall>v. filter_version F = Some v \<and> v \<noteq> [] \<and> v \<noteq> ''all'' \<longrightarrow>
                    version f = Some v)) fs"
  by (simp only: filterFeatures_filter facet_category facet_status facet_tags facet_version)

theorem filterFeatures_facets_witness:
  "filter (\<lambda>f. (\<forall>c. filter_category filters_beta = Some c \<and> c \<noteq> [] \<and> c \<noteq> ''all'' \<longrightarrow> category f = c)
              \<and> (\<forall>s. filter_status filters_beta = Some s \<and> s \<noteq> [] \<and> s \<noteq> ''all'' \<longrightarrow> status f = s)
              \<and> (\<forall>ts. filter_tags filters_beta = Some ts \<and> ts \<noteq> [] \<longrightarrow>
                    (\<exists>tag\<in>set ts. \<exists>own. tags f = Some own \<and> tag \<in> set own))
              \<and> (\<forall>v. filter_version filters_beta = Some v \<and> v \<noteq> [] \<and> v \<noteq> ''all'' \<longrightarrow>
                    version f = Some v)) [feature_slash, feature_background]
       = [feature_background]"
  by (rule trans[OF filterFeatures_facets[of "[feature_slash, feature_background]" filters_beta,
        symmetric] filter_beta_example])

text \<open>
  C7: \<open>filterFeatures\<close> is idempotent: filtering a filtered list again with the same
  filter state returns the same ordered list.
\<close>

theorem filterFeatures_idempotent:
  "filterFeatures (filterFeatures fs F) F = filterFeatures fs F"
  by (simp add: filterFeatures_filter)

theorem filterFeatures_idempotent_witness:
  "filterFeatures (filterFeatures [feature_slash, feature_background] filters_beta) filters_beta
     = filterFeatures [feature_slash, feature_background] filters_beta
   \<and> filterFeatures [feature_slash, feature_background] filters_beta = [feature_background]"
  by (rule conjI[OF filterFeatures_idempotent[of "[feature_slash, feature_background]" filters_beta]
        filter_beta_example])

section \<open>Properties of the search history\<close>

lemma addToSearchHistory_history:
  "searchHistory (fst (addToSearchHistory ok q (this, storage)))
     = take (maxHistorySize this) (q # filter (\<lambda>t. t \<noteq> q) (searchHistory this))"
  by (simp add: addToSearchHistory_def Let_def)

lemma addToSearchHistory_capacity:
  "maxHistorySize (fst (addToSearchHistory ok q (this, storage))) = maxHistorySize this"
  by (simp add: addToSearchHistory_def Let_def)

lemma addToSearchHistory_storage:
  "snd (addToSearchHistory ok q (this, storage)) =
     (if ok then storage(''docs-search-history'' \<mapsto>
                  searchHistory (fst (addToSearchHistory ok q (this, storage))))
      else storage)"
  by (simp add: addToSearchHistory_def saveSearchHistory_def Let_def)

lemma push_abac:
  "searchHistory (fst (addToSearchHistory ok ''c'' (addToSearchHistory ok ''a''
      (addToSearchHistory ok ''b'' (addToSearchHistory ok ''a'' (DocumentSearch_new, storage))))))
     = [''c'', ''a'', ''b'']"
  by (simp add: addToSearchHistory_def saveSearchHistory_def DocumentSearch_new_def Let_def)

text \<open>
  C8: with capacity 10, pushing a query puts it at the front of the history and leaves no
  other occurrence of it; the remaining entries keep their order and the list never exceeds
  10 entries. A query already present is promoted, and a new query pushed onto a full
  history drops the oldest entry. When the write succeeds the same list is persisted.
  Pushing \<open>a\<close>, \<open>b\<close>, \<open>a\<close>, \<open>c\<close> onto the empty history gives \<open>c\<close>, \<open>a\<close>, \<open>b\<close>.
\<close>

theorem addToSearchHistory_recency:
  fixes this :: DocumentSearch
  defines "h \<equiv> searchHistory this"
  defines "h' \<equiv> \<lambda>ok q storage. searchHistory (fst (addToSearchHistory ok q (this, storage)))"
  assumes cap: "maxHistorySize this = 10"
  shows "hd (h' ok q storage) = q \<and> q \<notin> set (tl (h' ok q storage))
    \<and> length (h' ok q storage) \<le> 10
    \<and> tl (h' ok q storage) = take 9 (filter (\<lambda>t. t \<noteq> q) h)
    \<and> (q \<in> set h \<and> length h \<le> 10 \<longrightarrow> h' ok q storage = q # filter (\<lambda>t. t \<noteq> q) h)
    \<and> (q \<notin> set h \<and> length h < 10 \<longrightarrow> h' ok q storage = q # h)
    \<and> (q \<notin> set h \<and> length h = 10 \<longrightarrow> h' ok q storage = q # butlast h)
    \<and> maxHistorySize (fst (addToSearchHistory ok q (this, storage))) = 10
    \<and> (ok \<longrightarrow> snd (addToSearchHistory ok q (this, storage)) ''docs-search-history''
          = Some (h' ok q storage))
    \<and> searchHistory (fst (addToSearchHistory ok ''c'' (addToSearchHistory ok ''a''
         (addToSearchHistory ok ''b'' (addToSearchHistory ok ''a'' (DocumentSearch_new, storage))))))
       = [''c'', ''a'', ''b'']"
proof -
  have v: "h' ok q storage = q # take 9 (filter (\<lambda>t. t \<noteq> q) h)"
    unfolding h'_def h_def by (simp add: addToSearchHistory_history cap)
  have notin: "q \<notin> set (take 9 (filter (\<lambda>t. t \<noteq> q) h))"
    by (auto dest: in_set_takeD)
  have promote: "h' ok q storage = q # filter (\<lambda>t. t \<noteq> q) h" if "q \<in> set h" "length h \<le> 10"
  proof -
    have "length (filter (\<lambda>t. t \<noteq> q) h) < length h"
      using that(1) by (simp add: length_filter_less)
    then have "length (filter (\<lambda>t. t \<noteq> q) h) \<le> 9" using that(2) by linarith
    then show ?thesis unfolding v by simp
  qed
  have same: "filter (\<lambda>t. t \<noteq> q) h = h" if "q \<notin> set h"
    using that by (auto simp: filter_id_conv)
  have fresh: "h' ok q storage = q # h" if "q \<notin> set h" "length h < 10"
    unfolding v using same[OF that(1)] that(2) by simp
  have full: "h' ok q storage = q # butlast h" if "q \<notin> set h" "length h = 10"
    unfolding v using same[OF that(1)] that(2) by (simp add: butlast_conv_take)
  have len: "length (h' ok q storage) \<le> 10" unfolding v by simp
  show ?thesis
    using v notin promote fresh full len cap
    by (simp add: addToSearchHistory_capacity addToSearchHistory_storage push_abac h'_def)
qed

theorem addToSearchHistory_recency_witness:
  "maxHistorySize (DocumentSearch_new\<lparr>searchHistory := [''a'', ''b'']\<rparr>) = 10
   \<and> searchHistory (fst (addToSearchHistory True ''b''
         (DocumentSearch_new\<lparr>searchHistory := [''a'', ''b'']\<rparr>, Map.empty)))
       = [''b'', ''a'']"
proof -
  have cap: "maxHistorySize (DocumentSearch_new\<lparr>searchHistory := [''a'', ''b'']\<rparr>) = 10"
    by (simp add: DocumentSearch_new_def)
  show ?thesis
    using cap addToSearchHistory_recency[OF cap, of True "''b''" Map.empty]
    by simp
qed

end
